theory Spec2Isabelle
  imports Main "HOL-Library.Sublist" "HOL-Library.Multiset"
begin

section \<open>Python string operations used by openmw-modchecker.py\<close>

text \<open>
  A string is the list of the bytes of its UTF-8 encoding. The operations below are the
  ones the script calls on \<open>str\<close>: \<open>in\<close>, \<open>startswith\<close> (which is \<^const>\<open>prefix\<close>),
  \<open>lower\<close>, \<open>split\<close>, \<open>replace\<close>, \<open>strip\<close>, \<open>rstrip\<close>, and \<open>os.path.join\<close> and
  \<open>pathlib.Path.name\<close> on a POSIX system, where \<open>os.path.sep\<close> is the slash. Searching
  for, splitting at and stripping ASCII text gives the same result on the bytes as on the
  code points.
\<close>

definition sep :: char where
  "sep = CHR ''/''"

text \<open>\<open>sub in s\<close>: \<open>sub\<close> occurs in \<open>s\<close> as a contiguous substring.\<close>

fun contains :: "string \<Rightarrow> string \<Rightarrow> bool" where
  "contains [] sub = (sub = [])"
| "contains (c # cs) sub = (prefix sub (c # cs) \<or> contains cs sub)"

text \<open>
  The host of the script: what \<open>os.walk\<close> yields for a directory, as the list of its
  \<open>(root, files)\<close> pairs in walk order (the script never reads the middle component of
  the triples; a directory that does not exist, or cannot be read, yields nothing, since
  \<open>os.walk\<close> swallows the error), and what \<open>str.lower\<close> gives for a string that is not
  pure ASCII, which follows the Unicode tables of the interpreter.
\<close>

record host =
  os_walk :: "string \<Rightarrow> (string \<times> string list) list"
  unicode_lower :: "string \<Rightarrow> string"

text \<open>\<open>s.lower()\<close>: in ASCII text the letters A to Z are folded and every other
  character is kept; any other text is folded by the host.\<close>

definition is_ascii :: "char \<Rightarrow> bool" where
  "is_ascii c = (\<not> digit7 c)"

definition lower_char :: "char \<Rightarrow> char" where
  "lower_char c =
     (case map_of (zip ''ABCDEFGHIJKLMNOPQRSTUVWXYZ'' ''abcdefghijklmnopqrstuvwxyz'') c of
        None \<Rightarrow> c
      | Some d \<Rightarrow> d)"

definition lower :: "host \<Rightarrow> string \<Rightarrow> string" where
  "lower host s = (if list_all is_ascii s then map lower_char s else unicode_lower host s)"

text \<open>
  \<open>s.split(sep)\<close> for a non-empty separator, given as its first character and the rest:
  the string is scanned from the left, and every occurrence of the separator found
  closes the current piece and is skipped whole.
\<close>

fun split_from :: "char \<Rightarrow> string \<Rightarrow> string \<Rightarrow> string \<Rightarrow> string list" where
  "split_from s0 ss acc [] = [rev acc]"
| "split_from s0 ss acc (c # cs) =
     (if prefix (s0 # ss) (c # cs)
      then rev acc # split_from s0 ss [] (drop (length ss) cs)
      else split_from s0 ss (c # acc) cs)"

definition split :: "string \<Rightarrow> string \<Rightarrow> string list" where
  "split s separator = split_from (hd separator) (tl separator) [] s"

text \<open>\<open>new.join(pieces)\<close>, and \<open>s.replace(old, new)\<close> through it.\<close>

fun join_with :: "string \<Rightarrow> string list \<Rightarrow> string" where
  "join_with new [] = []"
| "join_with new [x] = x"
| "join_with new (x # y # ys) = x @ new @ join_with new (y # ys)"

definition replace :: "string \<Rightarrow> string \<Rightarrow> string \<Rightarrow> string" where
  "replace s old new = join_with new (split s old)"

text \<open>
  \<open>s.rstrip()\<close> removes the longest end of the string that consists of white space.
  White space is what \<open>str.isspace\<close> accepts: the ASCII characters below, and the code
  points U+0085, U+00A0, U+1680, U+2000 to U+200A, U+2028, U+2029, U+202F, U+205F and
  U+3000, here in their UTF-8 encoding. \<open>s.strip(chars)\<close> removes the given characters
  from both ends.
\<close>

definition is_space :: "char \<Rightarrow> bool" where
  "is_space c = (c \<in> set [CHR '' '', CHR 0x09, CHR 0x0A, CHR 0x0B, CHR 0x0C, CHR 0x0D,
                           CHR 0x1C, CHR 0x1D, CHR 0x1E, CHR 0x1F])"

definition unicode_spaces :: "string list" where
  "unicode_spaces =
     [[CHR 0xC2, CHR 0x85], [CHR 0xC2, CHR 0xA0], [CHR 0xE1, CHR 0x9A, CHR 0x80],
      [CHR 0xE2, CHR 0x80, CHR 0x80], [CHR 0xE2, CHR 0x80, CHR 0x81],
      [CHR 0xE2, CHR 0x80, CHR 0x82], [CHR 0xE2, CHR 0x80, CHR 0x83],
      [CHR 0xE2, CHR 0x80, CHR 0x84], [CHR 0xE2, CHR 0x80, CHR 0x85],
      [CHR 0xE2, CHR 0x80, CHR 0x86], [CHR 0xE2, CHR 0x80, CHR 0x87],
      [CHR 0xE2, CHR 0x80, CHR 0x88], [CHR 0xE2, CHR 0x80, CHR 0x89],
      [CHR 0xE2, CHR 0x80, CHR 0x8A], [CHR 0xE2, CHR 0x80, CHR 0xA8],
      [CHR 0xE2, CHR 0x80, CHR 0xA9], [CHR 0xE2, CHR 0x80, CHR 0xAF],
      [CHR 0xE2, CHR 0x81, CHR 0x9F], [CHR 0xE3, CHR 0x80, CHR 0x80]]"

fun all_space :: "string \<Rightarrow> bool" where
  "all_space [] = True"
| "all_space [c] = is_space c"
| "all_space [c, d] = (if is_space c then is_space d else [c, d] \<in> set unicode_spaces)"
| "all_space (c # d # e # es) =
     (if is_space c then all_space (d # e # es)
      else if [c, d] \<in> set unicode_spaces then all_space (e # es)
      else if [c, d, e] \<in> set unicode_spaces then all_space es
      else False)"

fun rstrip :: "string \<Rightarrow> string" where
  "rstrip [] = []"
| "rstrip (c # cs) = (if all_space (c # cs) then [] else c # rstrip cs)"

definition strip :: "string \<Rightarrow> string \<Rightarrow> string" where
  "strip s chars =
     dropWhile (\<lambda>c. c \<in> set chars) (rev (dropWhile (\<lambda>c. c \<in> set chars) (rev s)))"

text \<open>\<open>os.path.join(a, b)\<close> of \<open>posixpath\<close>.\<close>

definition path_join :: "string \<Rightarrow> string \<Rightarrow> string" where
  "path_join a b =
     (if prefix [sep] b then b
      else if a = [] \<or> last a = sep then a @ b
      else a @ [sep] @ b)"

text \<open>\<open>pathlib.Path(p).name\<close>: the last component, where empty components and single
  dots are not components; the empty string when there is none.\<close>

definition path_name :: "string \<Rightarrow> string" where
  "path_name p =
     (case filter (\<lambda>part. part \<noteq> [] \<and> part \<noteq> ''.'') (split p [sep]) of
        [] \<Rightarrow> []
      | parts \<Rightarrow> last parts)"


section \<open>The script\<close>

definition OK_DIRS :: "string list" where
  "OK_DIRS = [''bookart'', ''fonts'', ''icons'', ''meshes'', ''music'', ''sound'',
              ''splash'', ''textures'']"

text \<open>\<open>get_mod_file_list\<close>: one entry, the lower-cased file name, for every file and every
  name of \<^const>\<open>OK_DIRS\<close> that occurs in the file's lower-cased full path.\<close>

definition get_mod_file_list :: "host \<Rightarrow> string \<Rightarrow> string list" where
  "get_mod_file_list host mod_dir =
     concat (map (\<lambda>(r, f).
       concat (map (\<lambda>file.
         concat (map (\<lambda>d. if contains (lower host (path_join r file)) d
                          then [lower host file] else [])
                  OK_DIRS)) f)) (os_walk host mod_dir))"

text \<open>
  \<open>read_openmw_cfg\<close>. The configuration files are a partial map from paths to their
  lines (each line with its terminator, as \<open>readlines\<close> gives them); a missing file
  ends the process with exit status 1. The variable \<open>count\<close> is \<open>counter\<close> here.
  The ordered dictionary \<open>data_paths\<close> is the list of its items: every key is a fresh
  value of the counter, so \<open>update\<close> appends.
\<close>

datatype exit = SystemExit nat

fun read_lines :: "host \<Rightarrow> nat \<Rightarrow> (nat \<times> string) list \<Rightarrow> string list
                   \<Rightarrow> (nat \<times> string) list" where
  "read_lines host counter data_paths [] = data_paths"
| "read_lines host counter data_paths (line # line_list) =
     (if prefix ''data='' line \<and> \<not> contains (lower host line) ''data files''
      then read_lines host (counter + 1) (data_paths @ [(counter, line)]) line_list
      else read_lines host counter data_paths line_list)"

definition read_openmw_cfg :: "host \<Rightarrow> (string \<rightharpoonup> string list) \<Rightarrow> string
                               \<Rightarrow> exit + (nat \<times> string) list" where
  "read_openmw_cfg host files cfg_path =
     (case files cfg_path of
        None \<Rightarrow> Inl (SystemExit 1)
      | Some line_list \<Rightarrow> Inr (read_lines host 1 [] line_list))"

definition mod_name_from_data_path :: "string \<Rightarrow> string" where
  "mod_name_from_data_path datastring =
     rstrip (replace (last (split (last (split datastring ''data=\"'')) [sep])) ''\"'' [])"

text \<open>
  \<open>check_mod\<close>. Its three ways out are the values of \<open>outcome\<close>:
  \<^item> \<open>Has_no_files\<close>: the return after \<open>Mod ... has no files!\<close>;
  \<^item> \<open>Overwritten ow_by\<close>: the return after \<open>Mod ... has been overwritten by the
    following mods:\<close> and the listed \<open>ow_by\<close>;
  \<^item> \<open>Can_stay n\<close>: the end of the function, after \<open>Mod ... can stay, remaining
    filecount: n\<close>.
  The state of the loop holds the three local variables, the position printed by
  \<open>Found mod ... in the load order at position #...\<close>, and the directories handed to
  \<open>get_mod_file_list\<close> so far, in call order.
\<close>

datatype outcome = Has_no_files | Overwritten "string list" | Can_stay nat

record walk_state =
  start_checking :: bool
  mod1_files :: "string list"
  ow_by :: "string list"
  found_at :: "nat option"
  scanned :: "string list"

text \<open>The inner loop over \<open>next_mod_files\<close>: \<open>list.remove\<close> deletes the first occurrence.\<close>

fun overwrite_file :: "string \<Rightarrow> string \<Rightarrow> walk_state \<Rightarrow> walk_state" where
  "overwrite_file next_mod file st =
     (if file \<in> set (mod1_files st)
      then st\<lparr>mod1_files := remove1 file (mod1_files st),
              ow_by := (if next_mod \<notin> set (ow_by st) then ow_by st @ [next_mod] else ow_by st)\<rparr>
      else st)"

fun check_paths :: "host \<Rightarrow> string \<Rightarrow> string \<Rightarrow> (nat \<times> string) list \<Rightarrow> walk_state
                    \<Rightarrow> outcome \<times> walk_state" where
  "check_paths host m base_dir [] st = (Can_stay (length (mod1_files st)), st)"
| "check_paths host m base_dir ((num, p) # rest) st =
     (if contains p (sep # m) \<and> \<not> start_checking st
      then check_paths host m base_dir rest (st\<lparr>start_checking := True, found_at := Some num\<rparr>)
      else if start_checking st
      then (if length (mod1_files st) > 0
            then (let next_mod = mod_name_from_data_path p in
                  if next_mod = m then check_paths host m base_dir rest st
                  else (let next_mod_files = get_mod_file_list host (path_join base_dir next_mod);
                            st1 = st\<lparr>scanned := scanned st @ [path_join base_dir next_mod]\<rparr> in
                        if length next_mod_files = 0 then check_paths host m base_dir rest st1
                        else check_paths host m base_dir rest
                               (fold (overwrite_file next_mod) next_mod_files st1)))
            else (Overwritten (ow_by st), st))
      else check_paths host m base_dir rest st)"

definition check_mod :: "host \<Rightarrow> string \<Rightarrow> (nat \<times> string) list \<Rightarrow> string
                         \<Rightarrow> outcome \<times> walk_state" where
  "check_mod host m all_paths base_dir =
     (let mod1 = get_mod_file_list host (path_join base_dir m);
          st = \<lparr>start_checking = False, mod1_files = mod1, ow_by = [], found_at = None,
                scanned = [path_join base_dir m]\<rparr>
      in if length mod1 = 0 then (Has_no_files, st)
         else check_paths host m base_dir all_paths st)"

text \<open>
  The branch of \<open>main\<close> taken when no single mod is named: the mods handed to
  \<open>check_mod\<close>, in call order, each with the outcome. The first assignment to
  \<open>mod_path\<close> is overwritten by the second, which strips \<open>data_mod_path\<close> again. The
  enumeration of \<open>mod_path\<close> that \<open>main\<close> makes for its own log line and for
  \<open>mod_dict\<close>, which is never read, is left out. An empty load order ends the process
  with exit status 1 before the loop.
\<close>

fun check_all :: "host \<Rightarrow> (nat \<times> string) list \<Rightarrow> string \<Rightarrow> string list
                  \<Rightarrow> (string \<times> outcome) list" where
  "check_all host all_data_paths base_mod_dir [] = []"
| "check_all host all_data_paths base_mod_dir (data_mod_path # rest) =
     (if prefix ''data='' data_mod_path
      then (let mod_path = replace data_mod_path ''data='' [];
                mod_path = strip data_mod_path [CHR 0x27, CHR 0x22, CHR 0x0A] in
            if mod_path = base_mod_dir then check_all host all_data_paths base_mod_dir rest
            else (let single_mod = path_name mod_path in
                  (single_mod, fst (check_mod host single_mod all_data_paths base_mod_dir))
                  # check_all host all_data_paths base_mod_dir rest))
      else check_all host all_data_paths base_mod_dir rest)"

definition main_all :: "host \<Rightarrow> (nat \<times> string) list \<Rightarrow> string
                        \<Rightarrow> exit + (string \<times> outcome) list" where
  "main_all host all_data_paths base_mod_dir =
     (if length (map snd all_data_paths) = 0 then Inl (SystemExit 1)
      else Inr (check_all host all_data_paths base_mod_dir (map snd all_data_paths)))"


section \<open>Notions used to state the properties\<close>

text \<open>
  What an entry of the load order brings against the target \<open>m\<close>: the files of the mod
  named by the entry, and nothing when the entry names \<open>m\<close> itself.
\<close>

definition entry_files :: "host \<Rightarrow> string \<Rightarrow> string \<Rightarrow> nat \<times> string \<Rightarrow> string list" where
  "entry_files host m base_dir e =
     (if mod_name_from_data_path (snd e) = m then []
      else get_mod_file_list host (path_join base_dir (mod_name_from_data_path (snd e))))"

definition later_files :: "host \<Rightarrow> string \<Rightarrow> string \<Rightarrow> (nat \<times> string) list \<Rightarrow> string list" where
  "later_files host m base_dir es = concat (map (entry_files host m base_dir) es)"

text \<open>
  The mods that contribute a matching file, one per contributing entry and in the order
  of the entries: an entry contributes when one of its files is among the files of the
  target still remaining when the entry is reached.
\<close>

fun contributors :: "host \<Rightarrow> string \<Rightarrow> string \<Rightarrow> string list \<Rightarrow> (nat \<times> string) list
                     \<Rightarrow> string list" where
  "contributors host m base_dir r [] = []"
| "contributors host m base_dir r (e # es) =
     (if \<exists>f \<in> set (entry_files host m base_dir e). f \<in> set r
      then [mod_name_from_data_path (snd e)] else [])
     @ contributors host m base_dir (fold remove1 (entry_files host m base_dir e) r) es"

text \<open>The distinct elements of a list, each at its first occurrence.\<close>

fun first_occurrences :: "'a list \<Rightarrow> 'a list" where
  "first_occurrences [] = []"
| "first_occurrences (x # xs) = x # first_occurrences (removeAll x xs)"

definition add_new :: "string \<Rightarrow> string list \<Rightarrow> string list" where
  "add_new g ow = (if g \<in> set ow then ow else ow @ [g])"

text \<open>The directories of the entries that do not name the target.\<close>

definition other_dirs :: "string \<Rightarrow> string \<Rightarrow> (nat \<times> string) list \<Rightarrow> string list" where
  "other_dirs m base_dir es =
     map (\<lambda>e. path_join base_dir (mod_name_from_data_path (snd e)))
       (filter (\<lambda>e. mod_name_from_data_path (snd e) \<noteq> m) es)"

text \<open>One round of the loop of \<open>check_mod\<close> once the target has been found and while
  files remain.\<close>

definition later_step :: "host \<Rightarrow> string \<Rightarrow> string \<Rightarrow> nat \<times> string \<Rightarrow> walk_state \<Rightarrow> walk_state" where
  "later_step host m base_dir e st =
     (let next_mod = mod_name_from_data_path (snd e) in
      if next_mod = m then st
      else fold (overwrite_file next_mod)
             (get_mod_file_list host (path_join base_dir next_mod))
             (st\<lparr>scanned := scanned st @ [path_join base_dir next_mod]\<rparr>))"


text \<open>The test of \<open>read_openmw_cfg\<close> on a line of the configuration file.\<close>

definition kept_line :: "host \<Rightarrow> string \<Rightarrow> bool" where
  "kept_line host l = (prefix ''data='' l \<and> \<not> contains (lower host l) ''data files'')"

text \<open>
  The test as the specification words it: the line starts with the key prefix, and its
  value (what follows the prefix, without the wrapping quotes and the line terminator) is
  not, letter case apart, the placeholder \<open>data files\<close>.
\<close>

definition cfg_value :: "string \<Rightarrow> string" where
  "cfg_value l = strip (drop (length ''data='') l) [CHR 0x27, CHR 0x22, CHR 0x0A]"

definition spec_kept_line :: "host \<Rightarrow> string \<Rightarrow> bool" where
  "spec_kept_line host l = (prefix ''data='' l \<and> lower host (cfg_value l) \<noteq> ''data files'')"


text \<open>
  The test for the target as the specification words it: the name is a component of the
  declared path, with a path separator or an end of the path on either side of it.
\<close>

definition spec_path_component :: "string \<Rightarrow> string \<Rightarrow> bool" where
  "spec_path_component l m = (m \<in> set (split (cfg_value l) [sep]))"

text \<open>
  The asset names of a directory: the lower-cased name of every file whose lower-cased
  full path contains one of the allow-listed names, once for each file, in walk order.
\<close>

definition asset_names :: "host \<Rightarrow> string \<Rightarrow> string list" where
  "asset_names host mod_dir =
     concat (map (\<lambda>(r, f).
       map (lower host)
         (filter (\<lambda>file. list_ex (contains (lower host (path_join r file))) OK_DIRS) f))
       (os_walk host mod_dir))"


section \<open>Concrete mod directories and load orders\<close>

definition host_example :: host where
  "host_example =
     \<lparr>os_walk = (\<lambda>d.
        if d = ''/mods/A'' then [(''/mods/A/meshes'', [''x.nif'', ''Y.nif''])]
        else if d = ''/mods/a'' then [(''/mods/a/meshes'', [''x.nif''])]
        else if d = ''/mods/B'' then [(''/mods/B/meshes'', [''X.NIF''])]
        else if d = ''/mods/C'' then [(''/mods/C/Meshes/sub'', [''y.nif''])]
        else if d = ''/mods/D'' then [(''/mods/D/textures'', [''z.dds''])]
        else if d = ''/mods/E''
          then [(''/mods/E/meshes/a'', [''x.nif'']), (''/mods/E/meshes/b'', [''X.nif''])]
        else if d = ''/mods/G'' then [(''/mods/G/meshes'', [''x.nif'', ''y.nif'', ''z.nif''])]
        else if d = ''/mods/H''
          then [(''/mods/H/meshes/a'', [''x.nif'', ''z.nif'']), (''/mods/H/meshes/b'', [''X.nif''])]
        else []),
      unicode_lower = (\<lambda>s. s)\<rparr>"

definition data_line :: "string \<Rightarrow> string" where
  "data_line name = ''data=\"/mods/'' @ name @ ''\"\<newline>''"

definition order_ABC :: "(nat \<times> string) list" where
  "order_ABC = [(1, data_line ''A''), (2, data_line ''B''), (3, data_line ''C'')]"

definition order_ABCD :: "(nat \<times> string) list" where
  "order_ABCD = order_ABC @ [(4, data_line ''D'')]"


definition order_GBC :: "(nat \<times> string) list" where
  "order_GBC = [(1, data_line ''G''), (2, data_line ''B''), (3, data_line ''C'')]"

definition order_HB :: "(nat \<times> string) list" where
  "order_HB = [(1, data_line ''H''), (2, data_line ''B'')]"

definition order_EB :: "(nat \<times> string) list" where
  "order_EB = [(1, data_line ''E''), (2, data_line ''B'')]"

definition order_EBaC :: "(nat \<times> string) list" where
  "order_EBaC = [(1, data_line ''E''), (2, data_line ''B''), (3, data_line ''a''),
                 (4, data_line ''C'')]"

definition order_EBCD :: "(nat \<times> string) list" where
  "order_EBCD = [(1, data_line ''E''), (2, data_line ''B''), (3, data_line ''C''),
                 (4, data_line ''D'')]"

definition order_ABAC :: "(nat \<times> string) list" where
  "order_ABAC = [(1, data_line ''A''), (2, data_line ''B''), (3, data_line ''A''),
                 (4, data_line ''C'')]"

definition order_BXBC :: "(nat \<times> string) list" where
  "order_BXBC = [(1, data_line ''BX''), (2, data_line ''B''), (3, data_line ''C'')]"

definition order_A_abc :: "(nat \<times> string) list" where
  "order_A_abc = [(1, data_line ''A''), (2, data_line ''abc'')]"

definition order_base_A :: "(nat \<times> string) list" where
  "order_base_A = [(1, ''data=\"/mods\"\<newline>''), (2, data_line ''A'')]"

definition cfg_example :: "string \<rightharpoonup> string list" where
  "cfg_example = [''openmw.cfg'' \<mapsto> map data_line [''A'', ''B'', ''C'']]"

definition game_data_line :: string where
  "game_data_line = ''data=\"/games/Morrowind/Data Files\"\<newline>''"


section \<open>Lemmas on the loop\<close>

lemma overwrite_file_fields [simp]:
  "start_checking (overwrite_file g f st) = start_checking st"
  "found_at (overwrite_file g f st) = found_at st"
  "scanned (overwrite_file g f st) = scanned st"
  by simp_all

lemma fold_overwrite_fields [simp]:
  "start_checking (fold (overwrite_file g) fs st) = start_checking st"
  "found_at (fold (overwrite_file g) fs st) = found_at st"
  "scanned (fold (overwrite_file g) fs st) = scanned st"
  by (induction fs arbitrary: st) simp_all

lemma fold_overwrite_mod1:
  "mod1_files (fold (overwrite_file g) fs st) = fold remove1 fs (mod1_files st)"
proof (induction fs arbitrary: st)
  case Nil
  show ?case by simp
next
  case (Cons f fs)
  have "mod1_files (overwrite_file g f st) = remove1 f (mod1_files st)"
    by (simp add: remove1_idem)
  with Cons show ?case by simp
qed

lemma add_new_idem [simp]: "add_new g (add_new g ow) = add_new g ow"
  by (simp add: add_new_def)

lemma fold_overwrite_ow_by:
  "ow_by (fold (overwrite_file g) fs st) =
     (if \<exists>f \<in> set fs. f \<in> set (mod1_files st) then add_new g (ow_by st) else ow_by st)"
proof (induction fs arbitrary: st)
  case Nil
  show ?case by simp
next
  case (Cons f fs)
  show ?case
  proof (cases "f \<in> set (mod1_files st)")
    case True
    then have "ow_by (overwrite_file g f st) = add_new g (ow_by st)"
      by (simp add: add_new_def)
    with True Cons[of "overwrite_file g f st"] show ?thesis by simp
  next
    case False
    then have "overwrite_file g f st = st" by simp
    with False Cons[of st] show ?thesis by simp
  qed
qed

lemma check_paths_not_located:
  assumes "\<not> start_checking st" and "\<forall>(num, p) \<in> set ps. \<not> contains p (sep # m)"
  shows "check_paths host m base_dir ps st = (Can_stay (length (mod1_files st)), st)"
  using assms by (induction ps) auto

lemma check_paths_located:
  assumes "\<not> start_checking st" and "\<forall>(k, q) \<in> set pre. \<not> contains q (sep # m)"
    and "contains p (sep # m)"
  shows "check_paths host m base_dir (pre @ (num, p) # later) st =
         check_paths host m base_dir later (st\<lparr>start_checking := True, found_at := Some num\<rparr>)"
  using assms by (induction pre) auto

lemma check_paths_started_found_at:
  "start_checking st \<Longrightarrow> found_at (snd (check_paths host m base_dir ps st)) = found_at st"
proof (induction ps arbitrary: st)
  case Nil
  show ?case by simp
next
  case (Cons e ps)
  obtain num p where e: "e = (num, p)" by (cases e)
  show ?case using Cons.prems
    by (simp add: e Let_def Cons.IH)
qed

lemma fold_remove1_Nil [simp]: "fold remove1 xs [] = []"
  by (induction xs) simp_all

lemma mset_fold_remove1: "mset (fold remove1 xs r) = mset r - mset xs"
  by (induction xs arbitrary: r) simp_all

lemma in_fold_remove1: "x \<in> set r \<Longrightarrow> x \<notin> set xs \<Longrightarrow> x \<in> set (fold remove1 xs r)"
  by (induction xs arbitrary: r) auto

lemma later_step_fields [simp]:
  "start_checking (later_step host m base_dir e st) = start_checking st"
  "found_at (later_step host m base_dir e st) = found_at st"
  by (simp_all add: later_step_def Let_def)

lemma later_step_mod1:
  "mod1_files (later_step host m base_dir e st) =
     fold remove1 (entry_files host m base_dir e) (mod1_files st)"
  by (simp add: later_step_def entry_files_def Let_def fold_overwrite_mod1)

lemma later_step_ow_by:
  "ow_by (later_step host m base_dir e st) =
     (if \<exists>f \<in> set (entry_files host m base_dir e). f \<in> set (mod1_files st)
      then add_new (mod_name_from_data_path (snd e)) (ow_by st) else ow_by st)"
  by (simp add: later_step_def entry_files_def Let_def fold_overwrite_ow_by)

lemma later_step_scanned:
  "scanned (later_step host m base_dir e st) = scanned st @ other_dirs m base_dir [e]"
  by (simp add: later_step_def other_dirs_def Let_def)

lemma check_paths_step:
  "start_checking st \<Longrightarrow> mod1_files st \<noteq> [] \<Longrightarrow>
   check_paths host m base_dir (e # rest) st =
     check_paths host m base_dir rest (later_step host m base_dir e st)"
  by (cases e) (simp add: later_step_def Let_def)

lemma check_paths_done:
  "start_checking st \<Longrightarrow> mod1_files st = [] \<Longrightarrow>
   check_paths host m base_dir (e # rest) st = (Overwritten (ow_by st), st)"
  by (cases e) simp

lemma check_paths_must_keep:
  assumes "start_checking st"
    and "f \<in> set (mod1_files st)" and "f \<notin> set (later_files host m base_dir es)"
  shows "fst (check_paths host m base_dir es st) =
           Can_stay (length (fold remove1 (later_files host m base_dir es) (mod1_files st)))"
  using assms
proof (induction es arbitrary: st)
  case Nil
  show ?case by (simp add: later_files_def)
next
  case (Cons e es)
  let ?st = "later_step host m base_dir e st"
  from Cons.prems have ne: "mod1_files st \<noteq> []" by auto
  from Cons.prems have f1: "f \<notin> set (entry_files host m base_dir e)"
    and f2: "f \<notin> set (later_files host m base_dir es)"
    by (simp_all add: later_files_def)
  have "f \<in> set (mod1_files ?st)"
    using Cons.prems(2) f1 by (simp add: later_step_mod1 in_fold_remove1)
  with Cons.IH [of ?st] Cons.prems(1) f2
  have "fst (check_paths host m base_dir es ?st) =
          Can_stay (length (fold remove1 (later_files host m base_dir es) (mod1_files ?st)))"
    by simp
  then show ?case
    using Cons.prems(1) ne
    by (simp add: check_paths_step later_step_mod1 later_files_def)
qed

lemma contributors_Nil [simp]: "contributors host m base_dir [] es = []"
  by (induction es) simp_all

lemma fold_add_new:
  "fold add_new xs acc = acc @ first_occurrences (filter (\<lambda>x. x \<notin> set acc) xs)"
proof (induction xs arbitrary: acc rule: length_induct)
  case (1 xs)
  show ?case
  proof (cases xs)
    case Nil
    then show ?thesis by simp
  next
    case (Cons x ys)
    show ?thesis
    proof (cases "x \<in> set acc")
      case True
      with 1 Cons show ?thesis by (simp add: add_new_def)
    next
      case False
      have "removeAll x (filter (\<lambda>y. y \<notin> set acc) ys) = filter (\<lambda>y. y \<notin> set (acc @ [x])) ys"
        by (induction ys) auto
      with False 1 Cons show ?thesis by (simp add: add_new_def)
    qed
  qed
qed

lemma fold_add_new_Nil: "fold add_new xs [] = first_occurrences xs"
  by (simp add: fold_add_new)

lemma check_paths_overwritten:
  assumes "start_checking st"
    and "fold remove1 (later_files host m base_dir es1) (mod1_files st) = []"
    and "es2 \<noteq> []"
  shows "fst (check_paths host m base_dir (es1 @ es2) st) =
           Overwritten (fold add_new (contributors host m base_dir (mod1_files st) es1) (ow_by st))"
  using assms
proof (induction es1 arbitrary: st)
  case Nil
  then obtain e rest where "es2 = e # rest" by (cases es2) auto
  with Nil show ?case by (simp add: later_files_def check_paths_done)
next
  case (Cons e es1)
  show ?case
  proof (cases "mod1_files st = []")
    case True
    with Cons.prems show ?thesis by (simp add: check_paths_done)
  next
    case False
    let ?st = "later_step host m base_dir e st"
    have "fst (check_paths host m base_dir (es1 @ es2) ?st) =
            Overwritten (fold add_new (contributors host m base_dir (mod1_files ?st) es1) (ow_by ?st))"
      using Cons.prems by (intro Cons.IH) (simp_all add: later_step_mod1 later_files_def)
    then show ?thesis
      using Cons.prems(1) False
      by (simp add: check_paths_step later_step_mod1 later_step_ow_by)
  qed
qed

lemma check_paths_scanned:
  assumes "start_checking st"
    and "fold remove1 (later_files host m base_dir es1) (mod1_files st) = []"
    and "fold remove1 (later_files host m base_dir (butlast es1)) (mod1_files st) \<noteq> []"
    and "es2 \<noteq> []"
  shows "scanned (snd (check_paths host m base_dir (es1 @ es2) st)) =
           scanned st @ other_dirs m base_dir es1"
  using assms
proof (induction es1 arbitrary: st)
  case Nil
  then show ?case by simp
next
  case (Cons e es1)
  let ?st = "later_step host m base_dir e st"
  from Cons.prems(3) have ne: "mod1_files st \<noteq> []" by auto
  have od: "other_dirs m base_dir (e # es1) = other_dirs m base_dir [e] @ other_dirs m base_dir es1"
    by (simp add: other_dirs_def)
  show ?case
  proof (cases "es1 = []")
    case True
    with Cons.prems(2) have "mod1_files ?st = []"
      by (simp add: later_step_mod1 later_files_def)
    moreover obtain e2 rest where "es2 = e2 # rest" using Cons.prems(4) by (cases es2) auto
    ultimately show ?thesis
      using True Cons.prems(1) ne
      by (simp add: check_paths_step check_paths_done later_step_scanned)
  next
    case False
    have "scanned (snd (check_paths host m base_dir (es1 @ es2) ?st)) =
            scanned ?st @ other_dirs m base_dir es1"
      using Cons.prems False
      by (intro Cons.IH) (simp_all add: later_step_mod1 later_files_def)
    then show ?thesis
      using Cons.prems(1) ne
      by (simp add: check_paths_step later_step_scanned od)
  qed
qed


section \<open>A mod without files\<close>

text \<open>
  Claim C9. When the enumeration of the target's directory is empty, which it is in
  particular when \<open>os.walk\<close> yields nothing for the directory (it does not exist),
  \<open>check_mod\<close> leaves by the \<open>has no files\<close> exit, whatever the load order is: the only
  directory enumerated is the target's own, no entry of the load order is looked at, and
  the result is a value, not an error.
\<close>

theorem check_mod_no_files:
  "(os_walk host (path_join base_dir m) = []
      \<longrightarrow> get_mod_file_list host (path_join base_dir m) = [])
   \<and> (get_mod_file_list host (path_join base_dir m) = [] \<longrightarrow>
        check_mod host m all_paths base_dir =
          (Has_no_files, \<lparr>start_checking = False, mod1_files = [], ow_by = [],
                          found_at = None, scanned = [path_join base_dir m]\<rparr>))"
  by (simp add: check_mod_def get_mod_file_list_def)

theorem check_mod_no_files_witness:
  "os_walk host_example (path_join ''/mods'' ''Z'') = []
   \<and> get_mod_file_list host_example (path_join ''/mods'' ''Z'') = []
   \<and> check_mod host_example ''Z'' order_ABC ''/mods'' =
        (Has_no_files, \<lparr>start_checking = False, mod1_files = [], ow_by = [],
                        found_at = None, scanned = [path_join ''/mods'' ''Z'']\<rparr>)"
proof -
  have h: "os_walk host_example (path_join ''/mods'' ''Z'') = []"
    by code_simp
  from h check_mod_no_files [of host_example "''/mods''" "''Z''" order_ABC]
  show ?thesis by blast
qed


section \<open>Reading the configuration file\<close>

lemma read_lines_zip:
  "read_lines host c acc ls =
     acc @ zip [c ..< c + length (filter (kept_line host) ls)] (filter (kept_line host) ls)"
proof (induction ls arbitrary: c acc)
  case Nil
  show ?case by simp
next
  case (Cons l ls)
  show ?case
  proof (cases "kept_line host l")
    case True
    have upt: "[c ..< Suc (c + n)] = c # [Suc c ..< Suc (c + n)]" for n
      by (simp add: upt_conv_Cons del: upt_Suc)
    from True have "read_lines host c acc (l # ls) = read_lines host (Suc c) (acc @ [(c, l)]) ls"
      by (simp add: kept_line_def)
    also have "\<dots> = (acc @ [(c, l)])
                      @ zip [Suc c ..< Suc c + length (filter (kept_line host) ls)]
                          (filter (kept_line host) ls)"
      by (rule Cons.IH)
    finally show ?thesis using True by (simp add: upt del: upt_Suc)
  next
    case False
    then have "read_lines host c acc (l # ls) = read_lines host c acc ls"
      by (auto simp: kept_line_def)
    with False show ?thesis by (simp add: Cons.IH)
  qed
qed

lemma read_lines_sorted: "sorted (map fst (read_lines host c [] ls))"
  by (simp add: read_lines_zip)

lemma read_lines_example:
  "read_lines host_example 1 [] (map data_line [''A'', ''B'', ''C'']) = order_ABC"
  by code_simp

lemma read_openmw_cfg_example:
  "read_openmw_cfg host_example cfg_example ''openmw.cfg'' = Inr order_ABC"
  unfolding read_openmw_cfg_def cfg_example_def
  by (simp only: fun_upd_same option.simps read_lines_example)

text \<open>
  Claim C6, as the code has it. Of the lines of the configuration file,
  \<open>read_openmw_cfg\<close> keeps exactly those that start with \<open>data=\<close> and whose lower-cased
  text does not contain \<open>data files\<close> anywhere; the kept lines are numbered 1, 2, ...
  in file order, so a line that is not kept uses no position.
\<close>

theorem read_openmw_cfg_kept_lines:
  "read_openmw_cfg host (files(cfg_path \<mapsto> line_list)) cfg_path =
     Inr (zip [1 ..< Suc (length (filter (kept_line host) line_list))]
              (filter (kept_line host) line_list))"
  by (simp add: read_openmw_cfg_def read_lines_zip)

text \<open>
  Claim C6 as stated fails: the line that declares the game's own \<open>Data Files\<close>
  directory starts with the key prefix and its value is a path, not the placeholder, yet
  the code drops it.
\<close>

theorem data_files_path_dropped:
  "spec_kept_line host_example game_data_line
   \<and> read_lines host_example 1 [] [game_data_line] = []"
  by code_simp


section \<open>Finding the target in the load order\<close>

lemma check_paths_found_at:
  "\<not> start_checking st \<Longrightarrow>
   found_at (snd (check_paths host m base_dir ps st)) =
     (case find (\<lambda>(num, p). contains p (sep # m)) ps of
        None \<Rightarrow> found_at st
      | Some e \<Rightarrow> Some (fst e))"
proof (induction ps)
  case Nil
  show ?case by simp
next
  case (Cons e ps)
  obtain num p where e: "e = (num, p)" by (cases e)
  show ?case
  proof (cases "contains p (sep # m)")
    case True
    with Cons.prems show ?thesis
      by (simp add: e check_paths_started_found_at)
  next
    case False
    with Cons show ?thesis by (simp add: e)
  qed
qed

lemma find_sorted_least:
  "sorted (map fst ps) \<Longrightarrow> find P ps = Some e \<Longrightarrow> e' \<in> set ps \<Longrightarrow> P e' \<Longrightarrow> fst e \<le> fst e'"
  by (induction ps) (auto split: if_splits)

lemma files_D_example: "get_mod_file_list host_example (path_join ''/mods'' ''D'') \<noteq> []"
  by code_simp

lemma files_B_example: "get_mod_file_list host_example (path_join ''/mods'' ''B'') \<noteq> []"
  by code_simp

lemma files_a_example: "get_mod_file_list host_example (path_join ''/mods'' ''a'') \<noteq> []"
  by code_simp

text \<open>
  Claim C7, as the code has it. For a target with files, the position that \<open>check_mod\<close>
  reports as found, after which the walk starts, is the position of the first entry of
  the load order whose line contains the path separator immediately followed by the
  target's name, whatever follows the name; among the entries read from a configuration
  file that is the lowest such position. When no line contains it, no position is
  reported.
\<close>

theorem found_at_first_match:
  assumes "read_openmw_cfg host files cfg_path = Inr all_paths"
    and "get_mod_file_list host (path_join base_dir m) \<noteq> []"
  shows "found_at (snd (check_mod host m all_paths base_dir)) =
           map_option fst (find (\<lambda>(num, p). contains p (sep # m)) all_paths)
         \<and> (\<forall>n. found_at (snd (check_mod host m all_paths base_dir)) = Some n \<longrightarrow>
                (\<forall>(k, q) \<in> set all_paths. contains q (sep # m) \<longrightarrow> n \<le> k))"
proof -
  let ?P = "\<lambda>(num, p). contains p (sep # m)"
  have eq: "found_at (snd (check_mod host m all_paths base_dir)) = map_option fst (find ?P all_paths)"
    using assms(2)
    by (simp add: check_mod_def Let_def check_paths_found_at split: option.splits)
  obtain ls where "all_paths = read_lines host 1 [] ls"
    using assms(1) by (auto simp: read_openmw_cfg_def split: option.splits)
  then have srt: "sorted (map fst all_paths)"
    by (simp add: read_lines_sorted)
  have "n \<le> k" if "found_at (snd (check_mod host m all_paths base_dir)) = Some n"
    and "(k, q) \<in> set all_paths" and "contains q (sep # m)" for n k q
  proof -
    from that(1) eq obtain e where e: "find ?P all_paths = Some e" "fst e = n"
      by auto
    from find_sorted_least [OF srt e(1) that(2)] that(3) e(2) show ?thesis by simp
  qed
  with eq show ?thesis by blast
qed

theorem found_at_first_match_witness:
  "found_at (snd (check_mod host_example ''B'' order_ABC ''/mods'')) = Some 2"
proof -
  have v: "map_option fst (find (\<lambda>(num, p). contains p (sep # ''B'')) order_ABC) = Some 2"
    by code_simp
  from found_at_first_match [OF read_openmw_cfg_example files_B_example]
  have "found_at (snd (check_mod host_example ''B'' order_ABC ''/mods'')) =
          map_option fst (find (\<lambda>(num, p). contains p (sep # ''B'')) order_ABC)"
    by (rule conjunct1)
  then show ?thesis
    unfolding v .
qed

text \<open>
  Claim C7 as stated fails. In the load order \<open>BX, B, C\<close> the name \<open>B\<close> is not a
  component of the path of the first entry and is one of the path of the second, yet
  the target \<open>B\<close> is found at position 1: its name is only the beginning of \<open>BX\<close>.
\<close>

theorem found_at_longer_name:
  "\<not> spec_path_component (data_line ''BX'') ''B''
   \<and> spec_path_component (data_line ''B'') ''B''
   \<and> found_at (snd (check_mod host_example ''B'' order_BXBC ''/mods'')) = Some 1"
  by code_simp

text \<open>
  Claim C4, as the code has it. A target with files whose name, preceded by the path
  separator, occurs in no line of the load order is not given a status of its own:
  \<open>check_mod\<close> reaches the end of the load order without having started, and leaves by
  the \<open>can stay\<close> exit with the count of all the target's files, no position found, nothing
  overwritten and no other mod enumerated.
\<close>

theorem check_mod_not_located:
  assumes "get_mod_file_list host (path_join base_dir m) \<noteq> []"
    and "\<forall>(num, p) \<in> set all_paths. \<not> contains p (sep # m)"
  shows "check_mod host m all_paths base_dir =
           (Can_stay (length (get_mod_file_list host (path_join base_dir m))),
            \<lparr>start_checking = False,
             mod1_files = get_mod_file_list host (path_join base_dir m),
             ow_by = [], found_at = None, scanned = [path_join base_dir m]\<rparr>)"
  using assms by (simp add: check_mod_def Let_def check_paths_not_located)

theorem check_mod_not_located_witness:
  "check_mod host_example ''D'' order_ABC ''/mods'' =
     (Can_stay (length (get_mod_file_list host_example (path_join ''/mods'' ''D''))),
      \<lparr>start_checking = False,
       mod1_files = get_mod_file_list host_example (path_join ''/mods'' ''D''),
       ow_by = [], found_at = None, scanned = [path_join ''/mods'' ''D'']\<rparr>)"
proof -
  have h: "\<forall>(num, p) \<in> set order_ABC. \<not> contains p (sep # ''D'')"
    by code_simp
  show ?thesis
    by (rule check_mod_not_located [OF files_D_example h])
qed

text \<open>
  Claim C4 as stated fails: mod \<open>D\<close> is not in the load order \<open>A, B, C\<close>, and
  \<open>check_mod\<close> gives for it the very outcome it gives for \<open>D\<close> in the load order
  \<open>A, B, C, D\<close>, where \<open>D\<close> is found at position 4 and must be kept.
\<close>

theorem not_located_same_outcome_as_must_keep:
  "found_at (snd (check_mod host_example ''D'' order_ABC ''/mods'')) = None
   \<and> fst (check_mod host_example ''D'' order_ABC ''/mods'') = Can_stay 1
   \<and> found_at (snd (check_mod host_example ''D'' order_ABCD ''/mods'')) = Some 4
   \<and> fst (check_mod host_example ''D'' order_ABCD ''/mods'') = Can_stay 1"
  by code_simp

lemma hits_replicate:
  "concat (map (\<lambda>d. if P d then [x] else []) ds) = replicate (length (filter P ds)) x"
  by (induction ds) simp_all

lemma list_ex_filter: "list_ex P ds \<longleftrightarrow> length (filter P ds) \<noteq> 0"
  by (auto simp: list_ex_iff filter_empty_conv)

lemma mset_hits:
  "mset (if list_ex P ds then [x] else []) \<subseteq># mset (concat (map (\<lambda>d. if P d then [x] else []) ds))"
proof (induction ds)
  case Nil
  show ?case by simp
next
  case (Cons a ds)
  show ?case
  proof (cases "P a")
    case True
    then show ?thesis by simp
  next
    case False
    with Cons show ?thesis by simp
  qed
qed

lemma set_hits:
  "set (concat (map (\<lambda>d. if P d then [x] else []) ds)) = (if list_ex P ds then {x} else {})"
  by (simp add: hits_replicate set_replicate_conv_if list_ex_filter)

lemma mset_names_of_root:
  "mset (map g (filter (\<lambda>file. list_ex (P file) ds) f))
     \<subseteq># mset (concat (map (\<lambda>file. concat (map (\<lambda>d. if P file d then [g file] else []) ds)) f))"
proof (induction f)
  case Nil
  show ?case by simp
next
  case (Cons a f)
  have "mset (map g (filter (\<lambda>file. list_ex (P file) ds) (a # f))) =
          mset (if list_ex (P a) ds then [g a] else [])
          + mset (map g (filter (\<lambda>file. list_ex (P file) ds) f))"
    by simp
  also have "\<dots> \<subseteq># mset (concat (map (\<lambda>d. if P a d then [g a] else []) ds))
          + mset (concat (map (\<lambda>file. concat (map (\<lambda>d. if P file d then [g file] else []) ds)) f))"
    by (intro subset_mset.add_mono mset_hits Cons.IH)
  finally show ?case by simp
qed

lemma set_names_of_root:
  "set (concat (map (\<lambda>file. concat (map (\<lambda>d. if P file d then [g file] else []) ds)) f)) =
     set (map g (filter (\<lambda>file. list_ex (P file) ds) f))"
proof (induction f)
  case Nil
  show ?case by simp
next
  case (Cons a f)
  have "set (concat (map (\<lambda>d. if P a d then [g a] else []) ds)) =
          (if list_ex (P a) ds then {g a} else {})"
    by (rule set_hits)
  with Cons show ?case by auto
qed

lemma mset_names_of_walk:
  "mset (concat (map (\<lambda>(r, f). map g (filter (\<lambda>file. list_ex (P r file) ds) f)) ws))
     \<subseteq># mset (concat (map (\<lambda>(r, f).
            concat (map (\<lambda>file. concat (map (\<lambda>d. if P r file d then [g file] else []) ds)) f)) ws))"
proof (induction ws)
  case Nil
  show ?case by simp
next
  case (Cons rf ws)
  obtain r f where rf: "rf = (r, f)" by (cases rf)
  have "mset (map g (filter (\<lambda>file. list_ex (P r file) ds) f))
          + mset (concat (map (\<lambda>(r, f). map g (filter (\<lambda>file. list_ex (P r file) ds) f)) ws))
        \<subseteq># mset (concat (map (\<lambda>file. concat (map (\<lambda>d. if P r file d then [g file] else []) ds)) f))
          + mset (concat (map (\<lambda>(r, f).
            concat (map (\<lambda>file. concat (map (\<lambda>d. if P r file d then [g file] else []) ds)) f)) ws))"
    by (intro subset_mset.add_mono mset_names_of_root Cons.IH)
  then show ?case by (simp add: rf)
qed

lemma set_names_of_walk:
  "set (concat (map (\<lambda>(r, f).
            concat (map (\<lambda>file. concat (map (\<lambda>d. if P r file d then [g file] else []) ds)) f)) ws)) =
   set (concat (map (\<lambda>(r, f). map g (filter (\<lambda>file. list_ex (P r file) ds) f)) ws))"
proof (induction ws)
  case Nil
  show ?case by simp
next
  case (Cons rf ws)
  obtain r f where rf: "rf = (r, f)" by (cases rf)
  have "set (concat (map (\<lambda>file. concat (map (\<lambda>d. if P r file d then [g file] else []) ds)) f)) =
     set (map g (filter (\<lambda>file. list_ex (P r file) ds) f))"
    by (rule set_names_of_root)
  with Cons show ?case by (simp add: rf)
qed

lemma mset_asset_names: "mset (asset_names host d) \<subseteq># mset (get_mod_file_list host d)"
  unfolding asset_names_def get_mod_file_list_def
  by (rule mset_names_of_walk [where P = "\<lambda>r file. contains (lower host (path_join r file))"])

lemma set_asset_names: "set (get_mod_file_list host d) = set (asset_names host d)"
  unfolding asset_names_def get_mod_file_list_def
  by (rule set_names_of_walk [where P = "\<lambda>r file. contains (lower host (path_join r file))"])

text \<open>
  Claim C10, as the code has it. The target is looked up by its name exactly as given,
  letter case included, and no case folding is applied to either side: for a target with
  files, a position is found if and only if some line of the load order contains the path
  separator followed by the name, and the entry at the found position has such a line.
  So an entry that names the target only up to letter case never makes it found. File
  names, in contrast, are compared lower-cased on both sides: the names that
  \<open>get_mod_file_list\<close> returns, for the target as for a later mod, are the lower-cased
  names of the files.
\<close>

theorem lookup_case_sensitive:
  assumes "get_mod_file_list host (path_join base_dir m) \<noteq> []"
  shows "(found_at (snd (check_mod host m all_paths base_dir)) = None
            \<longleftrightarrow> (\<forall>(num, p) \<in> set all_paths. \<not> contains p (sep # m)))
         \<and> (\<forall>n. found_at (snd (check_mod host m all_paths base_dir)) = Some n \<longrightarrow>
                (\<exists>p. (n, p) \<in> set all_paths \<and> contains p (sep # m)))
         \<and> (\<forall>d. set (get_mod_file_list host d) = set (asset_names host d))"
proof -
  let ?P = "\<lambda>(num, p). contains p (sep # m)"
  have eq: "found_at (snd (check_mod host m all_paths base_dir)) = map_option fst (find ?P all_paths)"
    using assms
    by (simp add: check_mod_def Let_def check_paths_found_at split: option.splits)
  have a: "found_at (snd (check_mod host m all_paths base_dir)) = None
            \<longleftrightarrow> (\<forall>(num, p) \<in> set all_paths. \<not> contains p (sep # m))"
    unfolding eq by (auto simp: find_None_iff)
  have b: "\<exists>p. (n, p) \<in> set all_paths \<and> contains p (sep # m)"
    if "found_at (snd (check_mod host m all_paths base_dir)) = Some n" for n
  proof -
    from that eq obtain e where e: "find ?P all_paths = Some e" "fst e = n"
      by auto
    from e(1) have "?P e" "e \<in> set all_paths"
      by (auto simp: find_Some_iff) (metis nth_mem)
    with e(2) show ?thesis by (cases e) auto
  qed
  from a b show ?thesis
    by (simp add: set_asset_names)
qed

theorem lookup_case_sensitive_witness:
  "found_at (snd (check_mod host_example ''a'' order_ABC ''/mods'')) = None"
proof -
  have h: "\<forall>(num, p) \<in> set order_ABC. \<not> contains p (sep # ''a'')"
    by code_simp
  from lookup_case_sensitive [OF files_a_example, of order_ABC]
  have "found_at (snd (check_mod host_example ''a'' order_ABC ''/mods'')) = None
            \<longleftrightarrow> (\<forall>(num, p) \<in> set order_ABC. \<not> contains p (sep # ''a''))"
    by (rule conjunct1)
  with h show ?thesis by (rule iffD2 [rotated])
qed

text \<open>
  Claim C10 as stated fails. The name \<open>a\<close> differs from the name of the entry \<open>A\<close> only
  in letter case, yet the target \<open>a\<close> is found in the load order \<open>A, abc\<close>: at position
  2, whose line contains the separator followed by \<open>a\<close>.
\<close>

theorem found_at_other_entry:
  "mod_name_from_data_path (data_line ''A'') \<noteq> ''a''
   \<and> lower host_example (mod_name_from_data_path (data_line ''A'')) = lower host_example ''a''
   \<and> found_at (snd (check_mod host_example ''a'' order_A_abc ''/mods'')) = Some 2"
  by code_simp


section \<open>The walk over the later entries\<close>

lemma distinct_diff_size:
  assumes "distinct r"
  shows "size (mset r - mset xs) = card (set r - set xs)"
proof -
  have "mset r - mset xs = mset (filter (\<lambda>x. x \<notin> set xs) r)"
  proof (rule multiset_eqI)
    fix x
    have le: "count (mset r) x \<le> 1"
      using assms by (simp add: distinct_count_atmost_1)
    show "count (mset r - mset xs) x = count (mset (filter (\<lambda>x. x \<notin> set xs) r)) x"
    proof (cases "x \<in> set xs")
      case True
      then have pos: "0 < count (mset xs) x" by (rule count_mset_gt_0)
      have "count (mset r) x - count (mset xs) x = 0"
        using le pos by linarith
      moreover have "count (mset (filter (\<lambda>x. x \<notin> set xs) r)) x = 0"
        using True by simp
      ultimately show ?thesis by (simp only: count_diff)
    next
      case False
      then have z: "count (mset xs) x = 0" by simp
      have "count (mset (filter (\<lambda>x. x \<notin> set xs) r)) x = count (mset r) x"
        using False by simp
      then show ?thesis by (simp only: count_diff z diff_zero)
    qed
  qed
  then have "size (mset r - mset xs) = length (filter (\<lambda>x. x \<notin> set xs) r)"
    by (metis size_mset)
  also have "\<dots> = card (set (filter (\<lambda>x. x \<notin> set xs) r))"
    using assms by (metis distinct_card distinct_filter)
  also have "set (filter (\<lambda>x. x \<notin> set xs) r) = set r - set xs"
    by auto
  finally show ?thesis .
qed

lemma length_fold_remove1: "length (fold remove1 xs r) = size (mset r - mset xs)"
  by (metis mset_fold_remove1 size_mset)

lemma fold_remove1_empty_iff: "fold remove1 xs r = [] \<longleftrightarrow> mset r \<subseteq># mset xs"
  by (metis mset_fold_remove1 mset_zero_iff Diff_eq_empty_iff_mset)

lemma contains_A_example: "contains (data_line ''A'') (sep # ''A'')"
  by code_simp

lemma contains_G_example: "contains (data_line ''G'') (sep # ''G'')"
  by code_simp

text \<open>
  Claim C3, as the code has it. Let the target be found at an entry of the load order,
  and let one of its files have a name that no later entry brings (an entry that names
  the target itself brings nothing). Then \<open>check_mod\<close> leaves by the \<open>can stay\<close> exit,
  and the count it reports is the number of the target's files left when every file of
  the later entries has cancelled one file of the same name: the size of the multiset
  difference, which is positive, and which for a target without repeated names is the
  number of its file names that no later entry brings.
\<close>

theorem check_mod_must_keep:
  assumes "all_paths = pre @ (num, p) # later"
    and "\<forall>(k, q) \<in> set pre. \<not> contains q (sep # m)"
    and "contains p (sep # m)"
    and "f \<in> set (get_mod_file_list host (path_join base_dir m))"
    and "f \<notin> set (later_files host m base_dir later)"
  shows "fst (check_mod host m all_paths base_dir) =
           Can_stay (size (mset (get_mod_file_list host (path_join base_dir m))
                           - mset (later_files host m base_dir later)))
         \<and> 0 < size (mset (get_mod_file_list host (path_join base_dir m))
                      - mset (later_files host m base_dir later))
         \<and> (distinct (get_mod_file_list host (path_join base_dir m)) \<longrightarrow>
              size (mset (get_mod_file_list host (path_join base_dir m))
                    - mset (later_files host m base_dir later))
              = card (set (get_mod_file_list host (path_join base_dir m))
                      - set (later_files host m base_dir later)))"
proof -
  let ?mod1 = "get_mod_file_list host (path_join base_dir m)"
  let ?st0 = "\<lparr>start_checking = False, mod1_files = ?mod1, ow_by = [], found_at = None,
               scanned = [path_join base_dir m]\<rparr>"
  let ?st1 = "?st0\<lparr>start_checking := True, found_at := Some num\<rparr>"
  from assms(4) have ne: "?mod1 \<noteq> []" by auto
  have "check_mod host m all_paths base_dir = check_paths host m base_dir later ?st1"
    using ne assms(1-3) by (simp add: check_mod_def Let_def check_paths_located)
  moreover have "fst (check_paths host m base_dir later ?st1) =
      Can_stay (length (fold remove1 (later_files host m base_dir later) (mod1_files ?st1)))"
    using assms(4,5) by (intro check_paths_must_keep [where f = f]) simp_all
  ultimately have 1: "fst (check_mod host m all_paths base_dir) =
      Can_stay (size (mset ?mod1 - mset (later_files host m base_dir later)))"
    by (simp add: length_fold_remove1)
  have "f \<in># mset ?mod1 - mset (later_files host m base_dir later)"
  proof -
    from assms(5) have z: "count (mset (later_files host m base_dir later)) f = 0" by simp
    from assms(4) have "0 < count (mset ?mod1) f" by (rule count_mset_gt_0)
    with z have "count (mset (later_files host m base_dir later)) f < count (mset ?mod1) f"
      by linarith
    then show ?thesis by (simp only: in_diff_count)
  qed
  then have "mset ?mod1 - mset (later_files host m base_dir later) \<noteq> {#}"
    by auto
  then have 2: "0 < size (mset ?mod1 - mset (later_files host m base_dir later))"
    by (simp only: nonempty_has_size)
  from 1 2 show ?thesis by (simp add: distinct_diff_size)
qed

theorem check_mod_must_keep_witness:
  "fst (check_mod host_example ''G'' order_GBC ''/mods'') = Can_stay 1"
proof -
  let ?later = "[(2, data_line ''B''), (3, data_line ''C'')]"
  have h1: "order_GBC = [] @ (1, data_line ''G'') # ?later"
    by (simp add: order_GBC_def)
  have h2: "\<forall>(k, q) \<in> set []. \<not> contains q (sep # ''G'')"
    by simp
  have h4: "''z.nif'' \<in> set (get_mod_file_list host_example (path_join ''/mods'' ''G''))"
    by code_simp
  have h5: "''z.nif'' \<notin> set (later_files host_example ''G'' ''/mods'' ?later)"
    by code_simp
  have v: "length (fold remove1 (later_files host_example ''G'' ''/mods'' ?later)
             (get_mod_file_list host_example (path_join ''/mods'' ''G''))) = 1"
    by code_simp
  from check_mod_must_keep [OF h1 h2 contains_G_example h4 h5]
  have "fst (check_mod host_example ''G'' order_GBC ''/mods'') =
          Can_stay (size (mset (get_mod_file_list host_example (path_join ''/mods'' ''G''))
                          - mset (later_files host_example ''G'' ''/mods'' ?later)))"
    by (rule conjunct1)
  then show ?thesis
    unfolding length_fold_remove1 [symmetric] v .
qed

text \<open>
  Claim C3 as stated fails. Mod \<open>H\<close> has two files of one lower-cased name and a third
  file; the later mod \<open>B\<close> has a file of the repeated name, so the third file is the only
  one whose name no later mod brings; yet the count reported is two.
\<close>

theorem repeated_name_counted:
  "set (get_mod_file_list host_example (path_join ''/mods'' ''H''))
     - set (later_files host_example ''H'' ''/mods'' [(2, data_line ''B'')]) = {''z.nif''}
   \<and> found_at (snd (check_mod host_example ''H'' order_HB ''/mods'')) = Some 1
   \<and> fst (check_mod host_example ''H'' order_HB ''/mods'') = Can_stay 2"
  by code_simp

text \<open>
  Claim C1, as the code has it. Let the target be found at an entry of the load order,
  and let the files of the later entries up to some entry that is not the last one cover
  the target's files, each later file cancelling one file of the same name, while the
  entries before that one do not. Then \<open>check_mod\<close> leaves by the \<open>overwritten\<close> exit,
  the directories enumerated are the target's and those of the later entries up to that
  entry which do not name the target, none after it, and the mods listed are the distinct
  mods that removed at least one file, in the order of their first contribution.
\<close>

theorem check_mod_overwritten:
  assumes "all_paths = pre @ (num, p) # es1 @ es2"
    and "\<forall>(k, q) \<in> set pre. \<not> contains q (sep # m)"
    and "contains p (sep # m)"
    and "mset (get_mod_file_list host (path_join base_dir m))
           \<subseteq># mset (later_files host m base_dir es1)"
    and "\<not> mset (get_mod_file_list host (path_join base_dir m))
           \<subseteq># mset (later_files host m base_dir (butlast es1))"
    and "es2 \<noteq> []"
  shows "fst (check_mod host m all_paths base_dir) =
           Overwritten (first_occurrences
             (contributors host m base_dir (get_mod_file_list host (path_join base_dir m)) es1))
         \<and> scanned (snd (check_mod host m all_paths base_dir)) =
             path_join base_dir m # other_dirs m base_dir es1"
proof -
  let ?mod1 = "get_mod_file_list host (path_join base_dir m)"
  let ?st0 = "\<lparr>start_checking = False, mod1_files = ?mod1, ow_by = [], found_at = None,
               scanned = [path_join base_dir m]\<rparr>"
  let ?st1 = "?st0\<lparr>start_checking := True, found_at := Some num\<rparr>"
  from assms(5) have ne: "?mod1 \<noteq> []" by auto
  have cm: "check_mod host m all_paths base_dir = check_paths host m base_dir (es1 @ es2) ?st1"
    using ne assms(1-3) by (simp add: check_mod_def Let_def check_paths_located)
  have e1: "fold remove1 (later_files host m base_dir es1) (mod1_files ?st1) = []"
    using assms(4) by (simp add: fold_remove1_empty_iff)
  have e2: "fold remove1 (later_files host m base_dir (butlast es1)) (mod1_files ?st1) \<noteq> []"
    using assms(5) by (simp add: fold_remove1_empty_iff)
  have "fst (check_paths host m base_dir (es1 @ es2) ?st1) =
          Overwritten (fold add_new (contributors host m base_dir (mod1_files ?st1) es1) (ow_by ?st1))"
    using e1 assms(6) by (intro check_paths_overwritten) simp_all
  moreover have "scanned (snd (check_paths host m base_dir (es1 @ es2) ?st1)) =
          scanned ?st1 @ other_dirs m base_dir es1"
    using e1 e2 assms(6) by (intro check_paths_scanned) simp_all
  ultimately show ?thesis
    by (simp add: cm fold_add_new_Nil)
qed

theorem check_mod_overwritten_witness:
  "fst (check_mod host_example ''A'' order_ABCD ''/mods'') = Overwritten [''B'', ''C'']
   \<and> scanned (snd (check_mod host_example ''A'' order_ABCD ''/mods'')) =
       [''/mods/A'', ''/mods/B'', ''/mods/C'']"
proof -
  let ?es1 = "[(2, data_line ''B''), (3, data_line ''C'')]"
  let ?es2 = "[(4, data_line ''D'')]"
  let ?mod1 = "get_mod_file_list host_example (path_join ''/mods'' ''A'')"
  have h1: "order_ABCD = [] @ (1, data_line ''A'') # ?es1 @ ?es2"
    by (simp add: order_ABCD_def order_ABC_def)
  have h2: "\<forall>(k, q) \<in> set []. \<not> contains q (sep # ''A'')"
    by simp
  have "fold remove1 (later_files host_example ''A'' ''/mods'' ?es1) ?mod1 = []"
    by code_simp
  then have h4: "mset ?mod1 \<subseteq># mset (later_files host_example ''A'' ''/mods'' ?es1)"
    using fold_remove1_empty_iff by blast
  have "fold remove1 (later_files host_example ''A'' ''/mods'' (butlast ?es1)) ?mod1 \<noteq> []"
    by code_simp
  then have h5: "\<not> mset ?mod1 \<subseteq># mset (later_files host_example ''A'' ''/mods'' (butlast ?es1))"
    using fold_remove1_empty_iff by blast
  have h6: "?es2 \<noteq> []"
    by simp
  have v1: "first_occurrences (contributors host_example ''A'' ''/mods'' ?mod1 ?es1) = [''B'', ''C'']"
    by code_simp
  have v2: "path_join ''/mods'' ''A'' # other_dirs ''A'' ''/mods'' ?es1 =
              [''/mods/A'', ''/mods/B'', ''/mods/C'']"
    by code_simp
  from check_mod_overwritten [OF h1 h2 contains_A_example h4 h5 h6]
  show ?thesis
    unfolding v1 v2 .
qed

text \<open>
  Claim C1 as stated fails. Mod \<open>E\<close> has two files of the same lower-cased name in two
  subdirectories; the later mod \<open>B\<close> has one file of that name, so every name of \<open>E\<close> is
  among the names of the later mods; yet one of the two files of \<open>E\<close> remains and \<open>E\<close>
  can stay.
\<close>

theorem repeated_name_not_overwritten:
  "set (get_mod_file_list host_example (path_join ''/mods'' ''E''))
     \<subseteq> set (later_files host_example ''E'' ''/mods''
               [(2, data_line ''B''), (3, data_line ''C''), (4, data_line ''D'')])
   \<and> found_at (snd (check_mod host_example ''E'' order_EBCD ''/mods'')) = Some 1
   \<and> fst (check_mod host_example ''E'' order_EBCD ''/mods'') = Can_stay 1"
  by code_simp

text \<open>
  The test for an empty rest is made on entering the next round of the loop. When the
  last file is removed by the last entry of the load order there is no next round, and the
  function ends with \<open>can stay, remaining filecount: 0\<close>: so it is for the load order
  \<open>A, B, C\<close> where \<open>A\<close> has two files, \<open>B\<close> has the first and \<open>C\<close> the second.
\<close>

lemma emptied_at_last_entry:
  "check_mod host_example ''A'' order_ABC ''/mods'' =
     (Can_stay 0, \<lparr>start_checking = True, mod1_files = [], ow_by = [''B'', ''C''],
                   found_at = Some 1, scanned = [''/mods/A'', ''/mods/B'', ''/mods/C'']\<rparr>)"
  by code_simp

text \<open>
  Claim C2 as stated fails. The two files of mod \<open>E\<close> give two entries of the same name;
  after the later mod \<open>B\<close>, which has one file of that name, one entry of that name
  remains; and with a second later mod that has a file of that name, the name is removed
  a second time.
\<close>

theorem duplicate_names_kept:
  "get_mod_file_list host_example ''/mods/E'' = [''x.nif'', ''x.nif'']
   \<and> mod1_files (snd (check_mod host_example ''E'' order_EB ''/mods'')) = [''x.nif'']
   \<and> fst (check_mod host_example ''E'' order_EBaC ''/mods'') = Overwritten [''B'', ''a'']"
  by code_simp

text \<open>
  Claim C2, as the code has it. The list that \<open>get_mod_file_list\<close> returns is a list
  with repetitions: its entries are the lower-cased names of the files whose lower-cased
  path contains an allow-listed name, and every such file has an entry of its own, so
  equal names of different files are not collapsed. The inner loop of \<open>check_mod\<close> removes
  from the target's files one occurrence for each file of the later mod that is still
  there: the rest is the multiset difference.
\<close>

theorem asset_list_with_repetitions:
  "mset (asset_names host d) \<subseteq># mset (get_mod_file_list host d)
   \<and> set (get_mod_file_list host d) = set (asset_names host d)
   \<and> mset (mod1_files (fold (overwrite_file next_mod) next_mod_files st)) =
       mset (mod1_files st) - mset next_mod_files"
  by (simp add: mset_asset_names set_asset_names fold_overwrite_mod1 mset_fold_remove1)

lemma later_step_ow_by_not_self:
  "m \<notin> set (ow_by st) \<Longrightarrow> m \<notin> set (ow_by (later_step host m base_dir e st))"
  by (auto simp: later_step_ow_by entry_files_def add_new_def)

lemma check_paths_ow_by_not_self:
  "m \<notin> set (ow_by st) \<Longrightarrow> m \<notin> set (ow_by (snd (check_paths host m base_dir ps st)))"
proof (induction ps arbitrary: st)
  case Nil
  then show ?case by simp
next
  case (Cons e ps)
  obtain num p where e: "e = (num, p)" by (cases e)
  show ?case
  proof (cases "start_checking st")
    case True
    show ?thesis
    proof (cases "mod1_files st = []")
      case empty: True
      with True Cons.prems show ?thesis by (simp add: check_paths_done)
    next
      case False
      from Cons.prems have "m \<notin> set (ow_by (later_step host m base_dir e st))"
        by (rule later_step_ow_by_not_self)
      then have "m \<notin> set (ow_by (snd (check_paths host m base_dir ps (later_step host m base_dir e st))))"
        by (rule Cons.IH)
      with True False show ?thesis by (simp add: check_paths_step)
    qed
  next
    case False
    show ?thesis
    proof (cases "contains p (sep # m)")
      case True
      have "m \<notin> set (ow_by (snd (check_paths host m base_dir ps
               (st\<lparr>start_checking := True, found_at := Some num\<rparr>))))"
        using Cons.prems by (intro Cons.IH) simp
      with True False show ?thesis by (simp add: e)
    next
      case nc: False
      with False Cons show ?thesis by (simp add: e)
    qed
  qed
qed

text \<open>
  Claim C5. An entry whose derived name is the target's is skipped wherever it stands:
  either the walk has already ended at it (nothing remained, and the state is returned
  as it is), or the walk goes on to the next entry with the same remaining files, the
  same list of overwriting mods and the same enumerated directories. The target is never
  in the list of overwriting mods at the end of \<open>check_mod\<close>.
\<close>

theorem self_entries_skipped:
  assumes "mod_name_from_data_path p = m"
  shows "(check_paths host m base_dir ((num, p) # rest) st = (Overwritten (ow_by st), st)
          \<or> (\<exists>st'. check_paths host m base_dir ((num, p) # rest) st =
                      check_paths host m base_dir rest st'
                    \<and> mod1_files st' = mod1_files st \<and> ow_by st' = ow_by st
                    \<and> scanned st' = scanned st))
         \<and> m \<notin> set (ow_by (snd (check_mod host m all_paths base_dir)))"
proof -
  have 1: "check_paths host m base_dir ((num, p) # rest) st = (Overwritten (ow_by st), st)
          \<or> (\<exists>st'. check_paths host m base_dir ((num, p) # rest) st =
                      check_paths host m base_dir rest st'
                    \<and> mod1_files st' = mod1_files st \<and> ow_by st' = ow_by st
                    \<and> scanned st' = scanned st)"
  proof (cases "contains p (sep # m) \<and> \<not> start_checking st")
    case True
    then have "check_paths host m base_dir ((num, p) # rest) st =
                 check_paths host m base_dir rest (st\<lparr>start_checking := True, found_at := Some num\<rparr>)"
      by simp
    then show ?thesis
      by (intro disjI2 exI [of _ "st\<lparr>start_checking := True, found_at := Some num\<rparr>"]) simp
  next
    case False
    show ?thesis
    proof (cases "start_checking st \<and> mod1_files st = []")
      case True
      then show ?thesis by simp
    next
      case False2: False
      with False assms have "check_paths host m base_dir ((num, p) # rest) st =
                 check_paths host m base_dir rest st"
        by auto
      then show ?thesis by blast
    qed
  qed
  have 2: "m \<notin> set (ow_by (snd (check_mod host m all_paths base_dir)))"
    by (simp add: check_mod_def Let_def check_paths_ow_by_not_self)
  from 1 2 show ?thesis by blast
qed

theorem self_entries_skipped_witness:
  "(check_paths host_example ''A'' ''/mods'' ((3, data_line ''A'') # [(4, data_line ''C'')])
      \<lparr>start_checking = True, mod1_files = [''y.nif''], ow_by = [''B''], found_at = Some 1,
       scanned = [''/mods/A'', ''/mods/B'']\<rparr>
    = check_paths host_example ''A'' ''/mods'' [(4, data_line ''C'')]
      \<lparr>start_checking = True, mod1_files = [''y.nif''], ow_by = [''B''], found_at = Some 1,
       scanned = [''/mods/A'', ''/mods/B'']\<rparr>)
   \<and> ''A'' \<notin> set (ow_by (snd (check_mod host_example ''A'' order_ABAC ''/mods'')))"
proof -
  let ?st = "\<lparr>start_checking = True, mod1_files = [''y.nif''], ow_by = [''B''], found_at = Some 1,
       scanned = [''/mods/A'', ''/mods/B'']\<rparr>"
  have h: "mod_name_from_data_path (data_line ''A'') = ''A''"
    by code_simp
  have v: "check_paths host_example ''A'' ''/mods'' ((3, data_line ''A'') # [(4, data_line ''C'')]) ?st
    = check_paths host_example ''A'' ''/mods'' [(4, data_line ''C'')] ?st"
    by code_simp
  from self_entries_skipped [OF h, of host_example "''/mods''" 3 "[(4, data_line ''C'')]" ?st order_ABAC] v
  show ?thesis by blast
qed


section \<open>Checking all mods\<close>

text \<open>
  Claim C8 at the load order whose first entry declares the base directory \<open>/mods\<close>
  itself. The path compared with the base directory is the whole line without its
  trailing quote and line terminator, key prefix included, so the two differ: the entry
  is not skipped, and \<open>check_mod\<close> is called for the name \<open>mods\<close>, then for \<open>A\<close>.
\<close>

theorem base_dir_entry_analysed:
  "strip (snd (hd order_base_A)) [CHR 0x27, CHR 0x22, CHR 0x0A] = ''data=\"/mods''
   \<and> main_all host_example order_base_A ''/mods'' =
       Inr [(''mods'', Has_no_files), (''A'', Can_stay 2)]"
  by code_simp

end
